theory Spec2Isabelle
  imports Main "HOL-Library.Word" "HOL-Library.Multiset" "HOL-Library.Sublist" "HOL-Library.AList"
begin

section \<open>Platform: JavaScript values and the library functions the code calls\<close>

text \<open>
  A JavaScript string is represented by the bytes of its UTF-8 encoding, so
  \<open>Buffer.from(String(s))\<close> is the list itself and \<open>length\<close> is the buffer's length.
  \<open>Buffer.toString()\<close> is the identity on these bytes: its replacement of ill-formed
  UTF-8 by U+FFFD is not modelled.

  The values \<open>put\<close> can receive are the values \<open>JSON.parse\<close> produces (the request
  body itself being a string). Numbers are integers; fractions are outside the model.
\<close>

datatype jsvalue =
    JString string
  | JNumber int
  | JBool bool
  | JNull
  | JArray "jsvalue list"
  | JObject "(string \<times> jsvalue) list"

text \<open>
  The functions of Node.js that the code calls and the repository does not define:
  \<open>JSON.parse\<close> (\<open>None\<close> when it throws SyntaxError), \<open>JSON.stringify\<close>,
  \<open>String(n)\<close> of a number, and the first four bytes of the SHA-1 digest read as a
  big-endian unsigned integer (\<open>createHash('sha1').update(s).digest().readUInt32BE(0)\<close>).
  Every theorem below holds for all of them.
\<close>

record platform =
  JSON_parse :: "string \<Rightarrow> jsvalue option"
  JSON_stringify :: "jsvalue \<Rightarrow> string"
  Number_toString :: "int \<Rightarrow> string"
  sha1_u32 :: "string \<Rightarrow> 32 word"

datatype error = RangeError | TypeError | DBClosed

section \<open>hash.js: the consistent-hash ring\<close>

record entry =
  hash :: "32 word"
  node :: string

text \<open>The entries in the order the two nested loops of \<open>buildRing\<close> push them.\<close>

definition emitted :: "platform \<Rightarrow> string list \<Rightarrow> nat \<Rightarrow> entry list" where
  "emitted P nodes vnodes =
     concat (map (\<lambda>n. map (\<lambda>i. \<lparr>hash = sha1_u32 P (n @ ''#'' @ Number_toString P (int i)),
                                  node = n\<rparr>) [0..<vnodes]) nodes)"

text \<open>
  \<open>ring.sort((a, b) => a.hash - b.hash)\<close>: the positions are below \<open>2^32\<close>, so the
  difference of two of them is exact, and \<open>Array.prototype.sort\<close> is stable.
\<close>

definition buildRing :: "platform \<Rightarrow> string list \<Rightarrow> nat \<Rightarrow> entry list" where
  "buildRing P nodes vnodes = sort_key hash (emitted P nodes vnodes)"

text \<open>\<open>(lo + hi) >>> 1\<close>: the sum is taken modulo \<open>2^32\<close>, then halved.\<close>

definition ushr1 :: "int \<Rightarrow> int" where
  "ushr1 x = (x mod 2 ^ 32) div 2"

text \<open>
  The loop of \<open>pickNode\<close>. Reading \<open>ring[mid].hash\<close> beyond the array is a TypeError.
  \<open>None\<close> is a loop that never ends.
\<close>

partial_function (option) search :: "entry list \<Rightarrow> 32 word \<Rightarrow> int \<Rightarrow> int \<Rightarrow> (error + int) option" where
  "search ring h lo hi =
     (if lo \<le> hi then
        (if nat (ushr1 (lo + hi)) < length ring then
           (if hash (ring ! nat (ushr1 (lo + hi))) < h
            then search ring h (ushr1 (lo + hi) + 1) hi
            else search ring h lo (ushr1 (lo + hi) - 1))
         else Some (Inl TypeError))
      else Some (Inr lo))"

text \<open>\<open>(ring[lo] || ring[0]).node\<close>: on an empty ring both reads are undefined.\<close>

definition pickNode :: "platform \<Rightarrow> entry list \<Rightarrow> string \<Rightarrow> (error + string) option" where
  "pickNode P ring key =
     (case search ring (sha1_u32 P key) 0 (int (length ring) - 1) of
        None \<Rightarrow> None
      | Some (Inl e) \<Rightarrow> Some (Inl e)
      | Some (Inr lo) \<Rightarrow>
          (if nat lo < length ring then Some (Inr (node (ring ! nat lo)))
           else if ring \<noteq> [] then Some (Inr (node (ring ! 0)))
           else Some (Inl TypeError)))"

section \<open>fastdb.js: the storage engine\<close>

text \<open>A buffer is the list of its bytes.\<close>

type_synonym buffer = "char list"

text \<open>The object \<open>{ value, ts }\<close> that \<open>memTable\<close> holds for a key.\<close>

record rec =
  val :: jsvalue
  ts :: int

text \<open>
  \<open>memTable\<close> is a JavaScript \<open>Map\<close>: \<open>set\<close> on a present key replaces the value in
  place, on a new key appends; \<open>delete\<close> removes; \<open>entries()\<close> is the list itself.
\<close>

type_synonym table = "(string \<times> rec) list"

datatype opname = Put | Del

text \<open>
  \<open>Buffer.alloc(n)\<close> is zero-filled. The platform's limit on the size of a buffer is
  not modelled.
\<close>

definition alloc :: "nat \<Rightarrow> buffer" where
  "alloc n = replicate n (char_of (0::nat))"

text \<open>The writes raise RangeError for a value or an offset out of range.\<close>

definition writeUInt8 :: "nat \<Rightarrow> nat \<Rightarrow> buffer \<Rightarrow> error + buffer" where
  "writeUInt8 v off buf =
     (if 255 < v \<or> length buf < off + 1 then Inl RangeError
      else Inr (buf[off := char_of v]))"

definition writeUInt32BE :: "nat \<Rightarrow> nat \<Rightarrow> buffer \<Rightarrow> error + buffer" where
  "writeUInt32BE v off buf =
     (if 2 ^ 32 \<le> v \<or> length buf < off + 4 then Inl RangeError
      else Inr (buf[off := char_of (v div 2 ^ 24),
                    off + 1 := char_of (v div 2 ^ 16),
                    off + 2 := char_of (v div 2 ^ 8),
                    off + 3 := char_of v]))"

text \<open>\<open>src.copy(target, targetStart)\<close> copies as many bytes as fit.\<close>

definition copy :: "buffer \<Rightarrow> buffer \<Rightarrow> nat \<Rightarrow> buffer" where
  "copy src target targetStart =
     take targetStart target @ take (length target - targetStart) src
       @ drop (targetStart + length src) target"

text \<open>\<open>typeof value === 'object'\<close>; \<open>typeof null\<close> is \<open>'object'\<close>.\<close>

definition typeof_object :: "jsvalue \<Rightarrow> bool" where
  "typeof_object v = (case v of JNull \<Rightarrow> True | JArray _ \<Rightarrow> True | JObject _ \<Rightarrow> True | _ \<Rightarrow> False)"

text \<open>
  \<open>typeof value === 'object' ? JSON.stringify(value) : String(value)\<close>: the values
  that are not objects are the strings, the numbers and the booleans.
\<close>

definition serializedValue :: "platform \<Rightarrow> jsvalue \<Rightarrow> string" where
  "serializedValue P v =
     (case v of
        JString s \<Rightarrow> s
      | JNumber n \<Rightarrow> Number_toString P n
      | JBool b \<Rightarrow> (if b then ''true'' else ''false'')
      | _ \<Rightarrow> JSON_stringify P v)"

definition serializeRecord :: "platform \<Rightarrow> opname \<Rightarrow> string \<Rightarrow> jsvalue \<Rightarrow> error + buffer" where
  "serializeRecord P op key v =
     (let keyBuf = key;
          valBuf = serializedValue P v;
          buf = alloc (1 + 4 + 4 + length keyBuf + length valBuf)
      in case writeUInt8 (if op = Put then 1 else 2) 0 buf of
           Inl e \<Rightarrow> Inl e
         | Inr buf1 \<Rightarrow>
        (case writeUInt32BE (length keyBuf) 1 buf1 of
           Inl e \<Rightarrow> Inl e
         | Inr buf2 \<Rightarrow>
        (case writeUInt32BE (length valBuf) 5 buf2 of
           Inl e \<Rightarrow> Inl e
         | Inr buf3 \<Rightarrow>
             Inr (copy valBuf (copy keyBuf buf3 9) (9 + length keyBuf)))))"

text \<open>\<open>now\<close> is what \<open>Date.now()\<close> returns at the call.\<close>

definition applyRecord :: "int \<Rightarrow> opname \<Rightarrow> string \<Rightarrow> jsvalue \<Rightarrow> table \<Rightarrow> table" where
  "applyRecord now op key v tbl =
     (case op of
        Put \<Rightarrow> AList.update key \<lparr>val = v, ts = now\<rparr> tbl
      | Del \<Rightarrow> AList.delete key tbl)"

text \<open>
  The engine's variables, and the two files of its data directory: the bytes of the WAL
  file, and the entries the snapshot file decodes to (\<open>None\<close>: no file, or one that
  does not gunzip or parse). The gzip and JSON encoding of the snapshot file itself is
  not modelled: \<open>takeSnapshot\<close> stores the entries and \<open>recover\<close> reads them back.
\<close>

record engine =
  memTable :: table
  walQueue :: "buffer list"
  closed :: bool
  walFile :: buffer
  snapshotFile :: "(string \<times> rec) list option"

definition put :: "platform \<Rightarrow> int \<Rightarrow> string \<Rightarrow> jsvalue \<Rightarrow> engine \<Rightarrow> error + engine" where
  "put P now key v e =
     (if closed e then Inl DBClosed
      else case serializeRecord P Put key v of
             Inl err \<Rightarrow> Inl err
           | Inr buf \<Rightarrow>
               Inr (e\<lparr>walQueue := walQueue e @ [buf],
                       memTable := applyRecord now Put key v (memTable e)\<rparr>))"

text \<open>\<open>memTable.get(key) || null\<close>: \<open>None\<close> is null.\<close>

definition get :: "string \<Rightarrow> engine \<Rightarrow> rec option" where
  "get key e = map_of (memTable e) key"

text \<open>
  \<open>del\<close> serializes the value \<open>''\<close> and calls \<open>applyRecord('del', key)\<close>, whose
  \<open>del\<close> branch reads neither the value nor the clock.
\<close>

definition del :: "platform \<Rightarrow> string \<Rightarrow> engine \<Rightarrow> error + engine" where
  "del P key e =
     (if closed e then Inl DBClosed
      else case serializeRecord P Del key (JString []) of
             Inl err \<Rightarrow> Inl err
           | Inr buf \<Rightarrow>
               Inr (e\<lparr>walQueue := walQueue e @ [buf],
                       memTable := applyRecord 0 Del key (JString []) (memTable e)\<rparr>))"

definition takeSnapshot :: "engine \<Rightarrow> engine" where
  "takeSnapshot e = e\<lparr>snapshotFile := Some (memTable e)\<rparr>"

text \<open>The body of the flush timer, and \<open>close\<close>.\<close>

definition flush :: "engine \<Rightarrow> engine" where
  "flush e =
     (if walQueue e = [] \<or> closed e then e
      else e\<lparr>walFile := walFile e @ concat (walQueue e), walQueue := []\<rparr>)"

definition close :: "engine \<Rightarrow> engine" where
  "close e =
     (if closed e then e
      else if walQueue e \<noteq> []
        then e\<lparr>closed := True, walFile := walFile e @ concat (walQueue e), walQueue := []\<rparr>
        else e\<lparr>closed := True\<rparr>)"

text \<open>The reads raise RangeError beyond the buffer; \<open>slice\<close> clamps.\<close>

definition readUInt8 :: "buffer \<Rightarrow> nat \<Rightarrow> error + nat" where
  "readUInt8 buf off = (if off < length buf then Inr (of_char (buf ! off)) else Inl RangeError)"

definition readUInt32BE :: "buffer \<Rightarrow> nat \<Rightarrow> error + nat" where
  "readUInt32BE buf off =
     (if off + 3 < length buf
      then Inr (of_char (buf ! off) * 2 ^ 24 + of_char (buf ! (off + 1)) * 2 ^ 16
                + of_char (buf ! (off + 2)) * 2 ^ 8 + of_char (buf ! (off + 3)))
      else Inl RangeError)"

definition slice :: "buffer \<Rightarrow> nat \<Rightarrow> nat \<Rightarrow> buffer" where
  "slice buf start end = take (end - start) (drop start buf)"

text \<open>
  The \<open>try { JSON.parse(value) ... } catch\<close> of \<open>recover\<close>: the text becomes the parsed
  value when that is an object or an array, and stays a string otherwise.
\<close>

definition reparse :: "platform \<Rightarrow> string \<Rightarrow> jsvalue" where
  "reparse P s =
     (case JSON_parse P s of
        None \<Rightarrow> JString s
      | Some parsed \<Rightarrow> (if typeof_object parsed \<and> parsed \<noteq> JNull then parsed else JString s))"

text \<open>
  The \<open>while\<close> loop of \<open>recover\<close>. \<open>clk i\<close> is what \<open>Date.now()\<close> returns during
  iteration \<open>i\<close>. No exception is caught in the loop.
\<close>

function recover_loop :: "platform \<Rightarrow> (nat \<Rightarrow> int) \<Rightarrow> buffer \<Rightarrow> nat \<Rightarrow> nat \<Rightarrow> table \<Rightarrow> error + table" where
  "recover_loop P clk walData offset i tbl =
     (if offset < length walData then
        (case readUInt8 walData offset of
           Inl e \<Rightarrow> Inl e
         | Inr opCode \<Rightarrow>
        (case readUInt32BE walData (offset + 1) of
           Inl e \<Rightarrow> Inl e
         | Inr keyLen \<Rightarrow>
        (case readUInt32BE walData (offset + 5) of
           Inl e \<Rightarrow> Inl e
         | Inr valLen \<Rightarrow>
             recover_loop P clk walData (offset + 9 + keyLen + valLen) (Suc i)
               (applyRecord (clk i) (if opCode = 1 then Put else Del)
                  (slice walData (offset + 9) (offset + 9 + keyLen))
                  (reparse P (slice walData (offset + 9 + keyLen) (offset + 9 + keyLen + valLen)))
                  tbl))))
      else Inr tbl)"
  by pat_completeness auto
termination
  by (relation "measure (\<lambda>(P, clk, walData, offset, i, tbl). length walData - offset)") auto

definition recover :: "platform \<Rightarrow> (nat \<Rightarrow> int) \<Rightarrow> (string \<times> rec) list option \<Rightarrow> buffer \<Rightarrow> error + table" where
  "recover P clk snapshot walData =
     recover_loop P clk walData 0 0
       (case snapshot of
          None \<Rightarrow> []
        | Some entries \<Rightarrow> fold (\<lambda>(k, v). AList.update k v) entries [])"

text \<open>\<open>makeFastDB\<close> on a data directory holding these two files.\<close>

definition makeFastDB :: "platform \<Rightarrow> (nat \<Rightarrow> int) \<Rightarrow> (string \<times> rec) list option \<Rightarrow> buffer \<Rightarrow> error + engine" where
  "makeFastDB P clk snapshot walData =
     (case recover P clk snapshot walData of
        Inl e \<Rightarrow> Inl e
      | Inr tbl \<Rightarrow> Inr \<lparr>memTable = tbl, walQueue = [], closed = False,
                        walFile = walData, snapshotFile = snapshot\<rparr>)"

text \<open>A sequence of calls of \<open>put\<close> (with the clock reading at the call) and \<open>del\<close>.\<close>

datatype mutation = PutOp int string jsvalue | DelOp string

fun run :: "platform \<Rightarrow> mutation list \<Rightarrow> engine \<Rightarrow> error + engine" where
  "run P [] e = Inr e"
| "run P (PutOp now k v # ms) e = (case put P now k v e of Inl err \<Rightarrow> Inl err | Inr e' \<Rightarrow> run P ms e')"
| "run P (DelOp k # ms) e = (case del P k e of Inl err \<Rightarrow> Inl err | Inr e' \<Rightarrow> run P ms e')"

section \<open>shard.js: the request handler and the replicator\<close>

record config =
  REPLICAS :: "string list"
  quorum_arg :: nat
  SHARD_ID :: string
  PORT :: nat

text \<open>\<open>Math.max(1, Number(args.quorum || 1))\<close>, for a quorum given as a natural number.\<close>

definition quorumSize :: "config \<Rightarrow> nat" where
  "quorumSize c = max 1 (quorum_arg c)"

text \<open>
  What the handlers read of a request: the method, the path, the \<open>key\<close> of the query
  string, the headers \<open>content-type\<close> and \<open>x-forwarded-by\<close>, and the body.
\<close>

record request =
  req_method :: string
  pathname :: string
  query_key :: "string option"
  content_type :: "string option"
  x_forwarded_by :: "string option"
  body :: string

text \<open>\<open>json(res, code, obj)\<close>: a status and the object sent as the body.\<close>

record response =
  status :: nat
  payload :: jsvalue

definition json :: "nat \<Rightarrow> jsvalue \<Rightarrow> response" where
  "json code obj = \<lparr>status = code, payload = obj\<rparr>"

text \<open>\<open>s.includes(t)\<close>.\<close>

primrec includes_str :: "string \<Rightarrow> string \<Rightarrow> bool" where
  "includes_str [] t = (t = [])"
| "includes_str (c # cs) t = (prefix t (c # cs) \<or> includes_str cs t)"

text \<open>A header or a query parameter is truthy when it is present and not empty.\<close>

definition truthy :: "string option \<Rightarrow> bool" where
  "truthy h = (case h of None \<Rightarrow> False | Some s \<Rightarrow> s \<noteq> [])"

text \<open>
  What the network does with one forwarded request: a response with an HTTP status, or
  a failed request, either of them during the wait numbered \<open>d\<close> of the replicator's
  loop (the waits are numbered from 0), or nothing at all.
\<close>

datatype netreply = Responds nat nat | Throws nat | Silent

text \<open>
  The promise \<open>forwardWrite(...).then(() => { acks++; }).catch(() => {})\<close>: whether and
  when \<open>acks++\<close> runs.
\<close>

datatype promise = Fulfilled nat | Rejected nat | Pending

text \<open>The request that \<open>forwardWrite\<close> sends.\<close>

definition forward_request :: "platform \<Rightarrow> config \<Rightarrow> string \<Rightarrow> string \<Rightarrow> jsvalue \<Rightarrow> request" where
  "forward_request P c m key v =
     \<lparr>req_method = m, pathname = ''/kv'', query_key = Some key,
      content_type = Some (if typeof_object v \<and> v \<noteq> JNull then ''application/json'' else ''text/plain''),
      x_forwarded_by = Some (SHARD_ID c),
      body = (if m = ''PUT''
              then (if typeof_object v \<and> v \<noteq> JNull then JSON_stringify P v
                    else case v of
                           JString s \<Rightarrow> s
                         | JNumber n \<Rightarrow> Number_toString P n
                         | JBool b \<Rightarrow> (if b then ''true'' else ''false'')
                         | _ \<Rightarrow> ''null'')
              else [])\<rparr>"

text \<open>\<open>if (!resp.ok) throw\<close>: a status outside 200..299 rejects.\<close>

definition forwardWrite ::
  "platform \<Rightarrow> config \<Rightarrow> (string \<Rightarrow> request \<Rightarrow> netreply) \<Rightarrow> string \<Rightarrow> string \<Rightarrow> string \<Rightarrow> jsvalue \<Rightarrow> promise" where
  "forwardWrite P c net m baseUrl key v =
     (case net baseUrl (forward_request P c m key v) of
        Responds st d \<Rightarrow> (if 200 \<le> st \<and> st \<le> 299 then Fulfilled d else Rejected d)
      | Throws d \<Rightarrow> Rejected d
      | Silent \<Rightarrow> Pending)"

text \<open>
  \<open>p.status\<close>: a Promise has no property of that name, the read yields \<open>undefined\<close>
  whatever the state of the promise.
\<close>

definition status_property :: "promise \<Rightarrow> string option" where
  "status_property p = None"

text \<open>
  The value of \<open>acks\<close> when the loop condition is evaluated for the \<open>k\<close>-th time after
  the first (that is, after \<open>k\<close> waits): 1 for the shard itself, and 1 for each forward
  fulfilled during an earlier wait.
\<close>

definition acks_at :: "promise list \<Rightarrow> nat \<Rightarrow> nat" where
  "acks_at ps k = 1 + length (filter (\<lambda>p. case p of Fulfilled d \<Rightarrow> d < k | _ \<Rightarrow> False) ps)"

text \<open>The \<open>while\<close> loop of \<open>replicate\<close>; the result is the number of waits it made.\<close>

partial_function (option) wait_loop :: "config \<Rightarrow> promise list \<Rightarrow> nat \<Rightarrow> nat option" where
  "wait_loop c ps k =
     (if acks_at ps k < min (quorumSize c) (length (REPLICAS c) + 1) then
        (if list_all (\<lambda>p. status_property p = Some ''fulfilled'' \<or> status_property p = Some ''rejected'') ps
         then Some (Suc k)
         else wait_loop c ps (Suc k))
      else Some k)"

record replication =
  acks :: nat
  quorum :: nat
  ok :: bool

text \<open>
  \<open>replicate\<close>; \<open>None\<close> when it never returns. After the loop, \<open>ac.abort()\<close> rejects the
  forwards still in flight, so that \<open>Promise.allSettled\<close> returns with \<open>acks\<close> as it
  is; without the abort it returns once every forward has settled, if ever.
\<close>

definition replicate_shard ::
  "platform \<Rightarrow> config \<Rightarrow> (string \<Rightarrow> request \<Rightarrow> netreply) \<Rightarrow> string \<Rightarrow> string \<Rightarrow> jsvalue \<Rightarrow> replication option" where
  "replicate_shard P c net m key v =
     (if REPLICAS c = [] then Some \<lparr>acks = 1, quorum = 1, ok = True\<rparr>
      else
        (let promises = map (\<lambda>base. forwardWrite P c net m base key v) (REPLICAS c)
         in case wait_loop c promises 0 of
              None \<Rightarrow> None
            | Some k \<Rightarrow>
                (if quorumSize c \<le> acks_at promises k
                 then Some \<lparr>acks = acks_at promises k, quorum = quorumSize c, ok = True\<rparr>
                 else if list_all (\<lambda>p. p \<noteq> Pending) promises
                 then Some \<lparr>acks = 1 + length (filter (\<lambda>p. case p of Fulfilled d \<Rightarrow> True | _ \<Rightarrow> False) promises),
                            quorum = quorumSize c,
                            ok = (quorumSize c \<le> 1 + length (filter (\<lambda>p. case p of Fulfilled d \<Rightarrow> True | _ \<Rightarrow> False) promises))\<rparr>
                 else None)))"

definition reply_of :: "replication \<Rightarrow> response" where
  "reply_of repl =
     json (if ok repl then 200 else 500)
       (JObject [(''ok'', JBool (ok repl)), (''acks'', JNumber (int (acks repl))),
                 (''quorum'', JNumber (int (quorum repl)))])"

text \<open>
  The server of shard.js on one request: an exception that nothing catches, or the
  response (\<open>None\<close> when the request is never answered) and the engine afterwards.
\<close>

definition shard_server ::
  "platform \<Rightarrow> config \<Rightarrow> (string \<Rightarrow> request \<Rightarrow> netreply) \<Rightarrow> int \<Rightarrow> request \<Rightarrow> engine
     \<Rightarrow> error + (response option \<times> engine)" where
  "shard_server P c net now req e =
     (if req_method req = ''GET'' \<and> pathname req = ''/health'' then
        Inr (Some (json 200 (JObject [(''status'', JString ''ok''), (''shard'', JString (SHARD_ID c)),
                                      (''port'', JNumber (int (PORT c)))])), e)
      else if req_method req = ''GET'' \<and> pathname req = ''/stats'' then
        Inr (Some (json 200 (JObject [(''shard'', JString (SHARD_ID c)),
                                      (''keys'', JNumber (int (length (memTable e))))])), e)
      else if pathname req = ''/kv'' then
        (if \<not> truthy (query_key req) then
           Inr (Some (json 400 (JObject [(''error'', JString ''missing key'')])), e)
         else if req_method req = ''GET'' then
           (case get (the (query_key req)) e of
              None \<Rightarrow> Inr (Some (json 404 (JObject [(''found'', JBool False)])), e)
            | Some v \<Rightarrow> Inr (Some (json 200 (JObject [(''found'', JBool True), (''value'', val v),
                                                      (''ts'', JNumber (ts v))])), e))
         else if req_method req = ''PUT'' then
           (case (if truthy (content_type req) \<and> includes_str (the (content_type req)) ''application/json''
                  then JSON_parse P (body req) else Some (JString (body req))) of
              None \<Rightarrow> Inr (Some (json 400 (JObject [(''error'', JString ''Invalid JSON'')])), e)
            | Some v \<Rightarrow>
                (case put P now (the (query_key req)) v e of
                   Inl err \<Rightarrow> Inl err
                 | Inr e' \<Rightarrow>
                     (case (if truthy (x_forwarded_by req) then Some \<lparr>acks = 1, quorum = 1, ok = True\<rparr>
                            else replicate_shard P c net ''PUT'' (the (query_key req)) v) of
                        None \<Rightarrow> Inr (None, e')
                      | Some repl \<Rightarrow> Inr (Some (reply_of repl), e'))))
         else if req_method req = ''DELETE'' then
           (case del P (the (query_key req)) e of
              Inl err \<Rightarrow> Inl err
            | Inr e' \<Rightarrow>
                (case (if truthy (x_forwarded_by req) then Some \<lparr>acks = 1, quorum = 1, ok = True\<rparr>
                       else replicate_shard P c net ''DELETE'' (the (query_key req)) (JString [])) of
                   None \<Rightarrow> Inr (None, e')
                 | Some repl \<Rightarrow> Inr (Some (reply_of repl), e')))
         else Inr (Some (json 405 (JObject [(''error'', JString ''method not allowed'')])), e))
      else Inr (Some (json 404 (JObject [(''error'', JString ''not found'')])), e))"

section \<open>coordinator.js: the router\<close>

text \<open>The request that \<open>proxy\<close> sends to the shard.\<close>

definition proxy_request :: "string \<Rightarrow> string \<Rightarrow> string \<Rightarrow> request" where
  "proxy_request m key bodyStr =
     \<lparr>req_method = m, pathname = ''/kv'', query_key = Some key,
      content_type = Some ''text/plain'', x_forwarded_by = None,
      body = (if m = ''PUT'' then bodyStr else [])\<rparr>"

text \<open>
  \<open>fetch\<close> delivers a request to the shard at a base URL and threads the state of the
  shards; \<open>None\<close> is a request that brings no response. The router passes status and
  body through.
\<close>

definition proxy ::
  "(string \<Rightarrow> request \<Rightarrow> 'w \<Rightarrow> response option \<times> 'w) \<Rightarrow> string \<Rightarrow> string \<Rightarrow> string \<Rightarrow> string \<Rightarrow> 'w
     \<Rightarrow> response option \<times> 'w" where
  "proxy fetch m shardBase key bodyStr w = fetch shardBase (proxy_request m key bodyStr) w"

text \<open>\<open>Math.max(10, Number(args.vnodes || 100))\<close>, for a count given as a natural number.\<close>

definition vnodeCount :: "nat \<Rightarrow> nat" where
  "vnodeCount vnodes_arg = max 10 vnodes_arg"

definition coordinator_server ::
  "platform \<Rightarrow> string list \<Rightarrow> nat \<Rightarrow> (string \<Rightarrow> request \<Rightarrow> 'w \<Rightarrow> response option \<times> 'w) \<Rightarrow> request \<Rightarrow> 'w
     \<Rightarrow> error + (response option \<times> 'w)" where
  "coordinator_server P SHARDS vnodes_arg fetch req w =
     (if pathname req = ''/route'' \<and> req_method req = ''GET'' then
        (if \<not> truthy (query_key req) then
           Inr (Some (json 400 (JObject [(''error'', JString ''missing key'')])), w)
         else case pickNode P (buildRing P SHARDS (vnodeCount vnodes_arg)) (the (query_key req)) of
                None \<Rightarrow> Inr (None, w)
              | Some (Inl err) \<Rightarrow> Inl err
              | Some (Inr n) \<Rightarrow>
                  Inr (Some (json 200 (JObject [(''key'', JString (the (query_key req))),
                                                (''shard'', JString n)])), w))
      else if pathname req = ''/kv'' then
        (if \<not> truthy (query_key req) then
           Inr (Some (json 400 (JObject [(''error'', JString ''missing key'')])), w)
         else case pickNode P (buildRing P SHARDS (vnodeCount vnodes_arg)) (the (query_key req)) of
                None \<Rightarrow> Inr (None, w)
              | Some (Inl err) \<Rightarrow> Inl err
              | Some (Inr n) \<Rightarrow>
                  (if req_method req = ''GET'' then Inr (proxy fetch ''GET'' n (the (query_key req)) [] w)
                   else if req_method req = ''PUT'' then Inr (proxy fetch ''PUT'' n (the (query_key req)) (body req) w)
                   else if req_method req = ''DELETE'' then Inr (proxy fetch ''DELETE'' n (the (query_key req)) [] w)
                   else Inr (Some (json 405 (JObject [(''error'', JString ''method not allowed'')])), w)))
      else if pathname req = ''/health'' \<and> req_method req = ''GET'' then
        Inr (Some (json 200 (JObject [(''status'', JString ''ok''), (''shards'', JNumber (int (length SHARDS))),
                                      (''vnodes'', JNumber (int (vnodeCount vnodes_arg)))])), w)
      else Inr (Some (json 404 (JObject [(''error'', JString ''not found'')])), w))"

text \<open>One shard behind the router: \<open>fetch\<close> runs the shard's server on its engine.\<close>

definition shard_fetch ::
  "platform \<Rightarrow> config \<Rightarrow> (string \<Rightarrow> request \<Rightarrow> netreply) \<Rightarrow> int
     \<Rightarrow> string \<Rightarrow> request \<Rightarrow> engine \<Rightarrow> response option \<times> engine" where
  "shard_fetch P c net now base req e =
     (case shard_server P c net now req e of
        Inl err \<Rightarrow> (None, e)
      | Inr (r, e') \<Rightarrow> (r, e'))"

section \<open>The WAL record of the format description\<close>

text \<open>
  A length as a big-endian unsigned 32-bit integer, and the record
  \<open>op:1 | klen:u32 | vlen:u32 | key[klen] | val[vlen]\<close> with \<open>op = 1\<close> for PUT and
  \<open>op = 2\<close> for DELETE.
\<close>

definition u32be :: "nat \<Rightarrow> buffer" where
  "u32be n = [char_of (n div 2 ^ 24 mod 256), char_of (n div 2 ^ 16 mod 256),
              char_of (n div 2 ^ 8 mod 256), char_of (n mod 256)]"

definition wal_record :: "opname \<Rightarrow> string \<Rightarrow> string \<Rightarrow> buffer" where
  "wal_record op key valBytes =
     char_of (case op of Put \<Rightarrow> 1 | Del \<Rightarrow> (2::nat)) # u32be (length key) @ u32be (length valBytes)
       @ key @ valBytes"

section \<open>Histories of one engine process\<close>

text \<open>The engine that \<open>makeFastDB\<close> returns on an empty data directory.\<close>

definition fresh :: engine where
  "fresh = \<lparr>memTable = [], walQueue = [], closed = False, walFile = [], snapshotFile = None\<rparr>"

text \<open>
  What happens to an open engine: a call of \<open>put\<close> or \<open>del\<close>, a firing of the flush
  timer, a firing of the snapshot timer.
\<close>

datatype event = Mutate mutation | Flush | Snapshot

fun step :: "platform \<Rightarrow> event \<Rightarrow> engine \<Rightarrow> error + engine" where
  "step P (Mutate m) e = run P [m] e"
| "step P Flush e = Inr (flush e)"
| "step P Snapshot e = Inr (if closed e then e else takeSnapshot e)"


fun mutation_key :: "mutation \<Rightarrow> string" where
  "mutation_key (PutOp now k v) = k"
| "mutation_key (DelOp k) = k"

text \<open>What \<open>get\<close> is to return after a mutation.\<close>

fun outcome :: "mutation \<Rightarrow> rec option" where
  "outcome (PutOp now k v) = Some \<lparr>val = v, ts = now\<rparr>"
| "outcome (DelOp k) = None"

text \<open>
  The effect of a history on the table of the live process, the bytes it appends to
  the WAL, and the effect of replaying these bytes, record number \<open>i\<close> first.
\<close>

fun apply_mutation :: "mutation \<Rightarrow> table \<Rightarrow> table" where
  "apply_mutation (PutOp now k v) tbl = applyRecord now Put k v tbl"
| "apply_mutation (DelOp k) tbl = applyRecord 0 Del k (JString []) tbl"

fun record_of :: "platform \<Rightarrow> mutation \<Rightarrow> buffer" where
  "record_of P (PutOp now k v) = wal_record Put k (serializedValue P v)"
| "record_of P (DelOp k) = wal_record Del k []"

fun fits :: "platform \<Rightarrow> mutation \<Rightarrow> bool" where
  "fits P (PutOp now k v) = (length k < 2 ^ 32 \<and> length (serializedValue P v) < 2 ^ 32)"
| "fits P (DelOp k) = (length k < 2 ^ 32)"






section \<open>What \<open>Array.prototype.sort\<close> guarantees\<close>

text \<open>
  The result of sorting \<open>xs\<close> with the comparator \<open>(a, b) => a.hash - b.hash\<close>: the same
  entries, ascending by position, entries of equal position in their order in \<open>xs\<close>.
\<close>

definition sort_result :: "entry list \<Rightarrow> entry list \<Rightarrow> bool" where
  "sort_result xs ys =
     (mset ys = mset xs \<and> sorted (map hash ys) \<and>
      (\<forall>x \<in> set xs. filter (\<lambda>y. hash y = hash x) ys = filter (\<lambda>y. hash y = hash x) xs))"

section \<open>A platform for the examples\<close>

text \<open>
  The examples below are evaluated on this platform. Its \<open>JSON.parse\<close> and
  \<open>JSON.stringify\<close> are those of JavaScript on the texts and values the examples pass
  to them, its \<open>String(n)\<close> is the decimal notation, and its hash is a stand-in for
  SHA-1, which no example depends on.
\<close>

function decimal :: "nat \<Rightarrow> string" where
  "decimal n = (if n < 10 then [char_of (48 + n)] else decimal (n div 10) @ [char_of (48 + n mod 10)])"
  by pat_completeness auto
termination
  by (relation "measure id") auto

definition sample_parse :: "string \<Rightarrow> jsvalue option" where
  \<open>sample_parse s =
     (if s = ''{"name":"Bob"}'' then Some (JObject [(''name'', JString ''Bob'')])
      else if s = ''[1]'' then Some (JArray [JNumber 1])
      else None)\<close>

definition sample_stringify :: "jsvalue \<Rightarrow> string" where
  \<open>sample_stringify v =
     (if v = JObject [(''name'', JString ''Bob'')] then ''{"name":"Bob"}''
      else if v = JArray [JNumber 1] then ''[1]''
      else ''null'')\<close>

definition sample :: platform where
  "sample =
     \<lparr>JSON_parse = sample_parse,
      JSON_stringify = sample_stringify,
      Number_toString = (\<lambda>i. if i < 0 then ''-'' @ decimal (nat (- i)) else decimal (nat i)),
      sha1_u32 = (\<lambda>s. word_of_nat (foldl (\<lambda>h c. 31 * h + of_char c) 7 s))\<rparr>"

text \<open>
  Shards for the examples: one without replicas and one with a single replica, both
  started with \<open>--quorum=2\<close>, and one with a single replica started with
  \<open>--quorum=3\<close>; a network on which every forward fails at once, and one on which
  every forward is answered with status 200 at once.
\<close>

definition alone :: config where
  "alone = \<lparr>REPLICAS = [], quorum_arg = 2, SHARD_ID = ''shard-4101'', PORT = 4101\<rparr>"

definition with_replica :: config where
  "with_replica = \<lparr>REPLICAS = [''http://127.0.0.1:4102''], quorum_arg = 2,
                    SHARD_ID = ''shard-4101'', PORT = 4101\<rparr>"


definition replicas_down :: "string \<Rightarrow> request \<Rightarrow> netreply" where
  "replicas_down baseUrl req = Throws 0"


section \<open>The ring: properties\<close>

lemma ushr1_mid:
  assumes "0 \<le> lo" "lo \<le> hi" "hi < 2 ^ 31"
  shows "ushr1 (lo + hi) = (lo + hi) div 2" "lo \<le> ushr1 (lo + hi)" "ushr1 (lo + hi) \<le> hi"
proof -
  have "lo + hi < 2 ^ 32" "0 \<le> lo + hi" using assms by simp_all
  then have "(lo + hi) mod 2 ^ 32 = lo + hi" by simp
  then show m: "ushr1 (lo + hi) = (lo + hi) div 2" by (simp add: ushr1_def)
  show "lo \<le> ushr1 (lo + hi)" "ushr1 (lo + hi) \<le> hi" using assms unfolding m by linarith+
qed

lemma search_correct:
  assumes srt: "sorted (map hash ring)" and len: "length ring < 2 ^ 31"
  shows "0 \<le> lo \<Longrightarrow> hi < int (length ring) \<Longrightarrow> lo \<le> hi + 1 \<Longrightarrow>
     (\<forall>j. j < nat lo \<longrightarrow> hash (ring ! j) < h) \<Longrightarrow>
     (\<forall>j. nat (hi + 1) \<le> j \<and> j < length ring \<longrightarrow> h \<le> hash (ring ! j)) \<Longrightarrow>
     \<exists>r. search ring h lo hi = Some (Inr r) \<and> 0 \<le> r \<and> r \<le> int (length ring) \<and>
         (\<forall>j. j < nat r \<longrightarrow> hash (ring ! j) < h) \<and>
         (\<forall>j. nat r \<le> j \<and> j < length ring \<longrightarrow> h \<le> hash (ring ! j))"
proof (induction "nat (hi - lo + 1)" arbitrary: lo hi rule: less_induct)
  case less
  show ?case
  proof (cases "lo \<le> hi")
    case False
    then have "lo = hi + 1" using less.prems by simp
    then show ?thesis using less.prems False
      by (subst search.simps) auto
  next
    case True
    define mid where "mid = ushr1 (lo + hi)"
    have hi31: "hi < 2 ^ 31" using less.prems(2) len by simp
    have mid: "lo \<le> mid" "mid \<le> hi" 
      using ushr1_mid[OF less.prems(1) True hi31] by (simp_all add: mid_def)
    have midlen: "nat mid < length ring" using mid less.prems by linarith
    have mono: "\<And>i j. i \<le> j \<Longrightarrow> j < length ring \<Longrightarrow> hash (ring ! i) \<le> hash (ring ! j)"
      using srt by (metis (no_types, lifting) length_map nth_map order_le_less_trans sorted_iff_nth_mono)
    show ?thesis
    proof (cases "hash (ring ! nat mid) < h")
      case lt: True
      have step: "search ring h lo hi = search ring h (mid + 1) hi"
        using True midlen lt by (subst search.simps) (simp add: mid_def)
      have below: "\<forall>j. j < nat (mid + 1) \<longrightarrow> hash (ring ! j) < h"
      proof (intro allI impI)
        fix j assume "j < nat (mid + 1)"
        then have "j \<le> nat mid" using mid less.prems(1) by linarith
        then have "hash (ring ! j) \<le> hash (ring ! nat mid)" using mono midlen by blast
        then show "hash (ring ! j) < h" using lt by simp
      qed
      have "\<exists>r. search ring h (mid + 1) hi = Some (Inr r) \<and> 0 \<le> r \<and> r \<le> int (length ring) \<and>
         (\<forall>j. j < nat r \<longrightarrow> hash (ring ! j) < h) \<and>
         (\<forall>j. nat r \<le> j \<and> j < length ring \<longrightarrow> h \<le> hash (ring ! j))"
        using mid less.prems below by (intro less.hyps) auto
      then show ?thesis by (simp add: step)
    next
      case ge: False
      have step: "search ring h lo hi = search ring h lo (mid - 1)"
        using True midlen ge by (subst search.simps) (simp add: mid_def)
      have above: "\<forall>j. nat (mid - 1 + 1) \<le> j \<and> j < length ring \<longrightarrow> h \<le> hash (ring ! j)"
      proof (intro allI impI)
        fix j assume j: "nat (mid - 1 + 1) \<le> j \<and> j < length ring"
        then have "hash (ring ! nat mid) \<le> hash (ring ! j)" using mono by simp
        then show "h \<le> hash (ring ! j)" using ge by simp
      qed
      have "\<exists>r. search ring h lo (mid - 1) = Some (Inr r) \<and> 0 \<le> r \<and> r \<le> int (length ring) \<and>
         (\<forall>j. j < nat r \<longrightarrow> hash (ring ! j) < h) \<and>
         (\<forall>j. nat r \<le> j \<and> j < length ring \<longrightarrow> h \<le> hash (ring ! j))"
        using mid less.prems above by (intro less.hyps) auto
      then show ?thesis by (simp add: step)
    qed
  qed
qed

text \<open>\<open>pickNode\<close> on a sorted, non-empty ring of fewer than \<open>2^31\<close> entries.\<close>

lemma pickNode_sorted:
  assumes srt: "sorted (map hash ring)" and len: "length ring < 2 ^ 31" and ne: "ring \<noteq> []"
  shows "\<exists>i<length ring. pickNode P ring k = Some (Inr (node (ring ! i))) \<and>
           ((sha1_u32 P k \<le> hash (ring ! i) \<and>
             (\<forall>j<length ring. sha1_u32 P k \<le> hash (ring ! j) \<longrightarrow> i \<le> j \<and> hash (ring ! i) \<le> hash (ring ! j)))
            \<or> (i = 0 \<and> (\<forall>j<length ring. hash (ring ! j) < sha1_u32 P k)))"
proof -
  define h where "h = sha1_u32 P k"
  have "\<exists>r. search ring h 0 (int (length ring) - 1) = Some (Inr r) \<and> 0 \<le> r \<and> r \<le> int (length ring) \<and>
         (\<forall>j. j < nat r \<longrightarrow> hash (ring ! j) < h) \<and>
         (\<forall>j. nat r \<le> j \<and> j < length ring \<longrightarrow> h \<le> hash (ring ! j))"
    by (rule search_correct[OF srt len]) auto
  then obtain r where r: "search ring h 0 (int (length ring) - 1) = Some (Inr r)" "0 \<le> r" "r \<le> int (length ring)"
    "\<forall>j. j < nat r \<longrightarrow> hash (ring ! j) < h" "\<forall>j. nat r \<le> j \<and> j < length ring \<longrightarrow> h \<le> hash (ring ! j)"
    by blast
  have mono: "\<And>i j. i \<le> j \<Longrightarrow> j < length ring \<Longrightarrow> hash (ring ! i) \<le> hash (ring ! j)"
    using srt by (metis (no_types, lifting) length_map nth_map order_le_less_trans sorted_iff_nth_mono)
  show ?thesis
  proof (cases "nat r < length ring")
    case True
    have p: "pickNode P ring k = Some (Inr (node (ring ! nat r)))"
      using r(1) True by (simp add: pickNode_def h_def)
    have least: "\<forall>j<length ring. h \<le> hash (ring ! j) \<longrightarrow> nat r \<le> j \<and> hash (ring ! nat r) \<le> hash (ring ! j)"
    proof (intro allI impI)
      fix j assume j: "j < length ring" "h \<le> hash (ring ! j)"
      have "\<not> j < nat r" using r(4) j(2) by (meson leD)
      then have "nat r \<le> j" by simp
      then show "nat r \<le> j \<and> hash (ring ! nat r) \<le> hash (ring ! j)" using mono j(1) by simp
    qed
    have "h \<le> hash (ring ! nat r)" using r(5) True by simp
    then show ?thesis using True p least unfolding h_def by blast
  next
    case False
    then have all: "\<forall>j<length ring. hash (ring ! j) < h" using r(4) by simp
    have p: "pickNode P ring k = Some (Inr (node (ring ! 0)))"
      using r(1) False ne by (simp add: pickNode_def h_def)
    have "0 < length ring" using ne by simp
    then show ?thesis using p all unfolding h_def by blast
  qed
qed

lemma node_emitted: "e \<in> set (emitted P S V) \<Longrightarrow> node e \<in> set S"
  by (auto simp: emitted_def)

lemma length_emitted: "length (emitted P S V) = length S * V"
  by (induction S) (simp_all add: emitted_def)

lemma set_buildRing: "set (buildRing P S V) = set (emitted P S V)"
  by (simp add: buildRing_def)

lemma length_buildRing: "length (buildRing P S V) = length S * V"
  by (simp add: buildRing_def length_emitted)

lemma sorted_buildRing: "sorted (map hash (buildRing P S V))"
  by (simp add: buildRing_def)

lemma sort_result_unique:
  assumes "sort_result xs ys"
  shows "ys = sort_key hash xs"
proof -
  have m: "mset ys = mset xs" and s: "sorted (map hash ys)"
    and f: "\<forall>x\<in>set xs. filter (\<lambda>y. hash y = hash x) ys = filter (\<lambda>y. hash y = hash x) xs"
    using assms by (simp_all add: sort_result_def)
  have "set ys = set xs" using m by (rule mset_eq_setD)
  then have "\<And>k. k \<in> set ys \<Longrightarrow> filter (\<lambda>x. hash k = hash x) ys = filter (\<lambda>x. hash k = hash x) xs"
    using f by (simp add: eq_commute)
  then have "sort_key hash xs = ys" by (intro properties_for_sort_key[OF m _ s]) simp
  then show ?thesis by simp
qed

lemma sort_result_sort_key: "sort_result xs (sort_key hash xs)"
  by (simp add: sort_result_def sort_key_stable)

text \<open>
  Claim C6. For a non-empty list of shards \<open>S\<close> and \<open>V \<ge> 10\<close> virtual nodes,
  \<open>pickNode\<close> on \<open>buildRing S V\<close> returns, for every key, the shard of a ring entry,
  and that shard is an element of \<open>S\<close>. The entry is the first one whose position is
  at least the key's position, which is the smallest such position, and entry 0 when
  every position is below the key's. The ring has fewer than \<open>2^31\<close> entries, so that
  \<open>(lo + hi) >>> 1\<close> is the midpoint.
\<close>

theorem pickNode_buildRing_member:
  assumes "S \<noteq> []" and "10 \<le> V" and "length S * V < 2 ^ 31"
  shows "\<exists>i<length (buildRing P S V).
           pickNode P (buildRing P S V) k = Some (Inr (node (buildRing P S V ! i))) \<and>
           node (buildRing P S V ! i) \<in> set S \<and>
           ((sha1_u32 P k \<le> hash (buildRing P S V ! i) \<and>
             (\<forall>j<length (buildRing P S V). sha1_u32 P k \<le> hash (buildRing P S V ! j)
                  \<longrightarrow> i \<le> j \<and> hash (buildRing P S V ! i) \<le> hash (buildRing P S V ! j)))
            \<or> (i = 0 \<and> (\<forall>j<length (buildRing P S V). hash (buildRing P S V ! j) < sha1_u32 P k)))"
proof -
  have ne: "buildRing P S V \<noteq> []"
    using assms(1,2) length_buildRing[of P S V] by (cases S) auto
  have len: "length (buildRing P S V) < 2 ^ 31" using assms(3) by (simp add: length_buildRing)
  obtain i where i: "i < length (buildRing P S V)"
    "pickNode P (buildRing P S V) k = Some (Inr (node (buildRing P S V ! i)))"
    "(sha1_u32 P k \<le> hash (buildRing P S V ! i) \<and>
             (\<forall>j<length (buildRing P S V). sha1_u32 P k \<le> hash (buildRing P S V ! j)
                  \<longrightarrow> i \<le> j \<and> hash (buildRing P S V ! i) \<le> hash (buildRing P S V ! j)))
            \<or> (i = 0 \<and> (\<forall>j<length (buildRing P S V). hash (buildRing P S V ! j) < sha1_u32 P k))"
    using pickNode_sorted[OF sorted_buildRing len ne, of P k] by blast
  have "buildRing P S V ! i \<in> set (emitted P S V)" using i(1) set_buildRing nth_mem by blast
  then have "node (buildRing P S V ! i) \<in> set S" by (rule node_emitted)
  then show ?thesis using i by blast
qed

theorem pickNode_buildRing_member_witness:
  "\<exists>i<length (buildRing sample [''A'', ''B'', ''C''] 10).
           pickNode sample (buildRing sample [''A'', ''B'', ''C''] 10) ''foo''
             = Some (Inr (node (buildRing sample [''A'', ''B'', ''C''] 10 ! i))) \<and>
           node (buildRing sample [''A'', ''B'', ''C''] 10 ! i) \<in> set [''A'', ''B'', ''C'']"
  using pickNode_buildRing_member[of "[''A'', ''B'', ''C'']" 10 sample "''foo''"] by auto

text \<open>
  Claim C7. \<open>buildRing\<close> and \<open>pickNode\<close> are deterministic. Whatever sorting
  algorithm two runs of \<open>buildRing\<close> on the same shards and virtual-node count use,
  if each returns what \<open>Array.prototype.sort\<close> guarantees, the two rings are the same
  list of entries, namely \<open>buildRing S V\<close>, and \<open>pickNode\<close> returns the same on both
  for every key.
\<close>

theorem ring_deterministic:
  assumes "sort_result (emitted P S V) ring1" and "sort_result (emitted P S V) ring2"
  shows "ring1 = ring2 \<and> ring1 = buildRing P S V \<and> pickNode P ring1 k = pickNode P ring2 k"
  using sort_result_unique[OF assms(1)] sort_result_unique[OF assms(2)] by (simp add: buildRing_def)


text \<open>An example: shards B and A with two virtual nodes each.\<close>

lemma upt2: "[0..<2] = [0, Suc 0]" by (simp add: upt_rec)

lemma emitted_ex: "emitted sample [''B'', ''A''] 2 =
   [\<lparr>hash = 273096, node = ''B''\<rparr>, \<lparr>hash = 273097, node = ''B''\<rparr>,
    \<lparr>hash = 272135, node = ''A''\<rparr>, \<lparr>hash = 272136, node = ''A''\<rparr>]"
  by (simp add: emitted_def sample_def upt2)

theorem ring_deterministic_witness:
  "[\<lparr>hash = 272135, node = ''A''\<rparr>, \<lparr>hash = 272136, node = ''A''\<rparr>,
    \<lparr>hash = 273096, node = ''B''\<rparr>, \<lparr>hash = 273097, node = ''B''\<rparr>] = buildRing sample [''B'', ''A''] 2"
proof -
  have a: "sort_result (emitted sample [''B'', ''A''] 2)
     [\<lparr>hash = 272135, node = ''A''\<rparr>, \<lparr>hash = 272136, node = ''A''\<rparr>,
      \<lparr>hash = 273096, node = ''B''\<rparr>, \<lparr>hash = 273097, node = ''B''\<rparr>]"
    unfolding emitted_ex by (simp add: sort_result_def)
  have b: "sort_result (emitted sample [''B'', ''A''] 2) (buildRing sample [''B'', ''A''] 2)"
    unfolding emitted_ex by (simp add: sort_result_def buildRing_def emitted_ex)
  show ?thesis using ring_deterministic[OF a b] by simp
qed

section \<open>The engine: serialization, replay and histories\<close>

lemma u32_split:
  assumes "n < 2 ^ 32"
  shows "(n div 2 ^ 24 mod 256) * 2 ^ 24 + (n div 2 ^ 16 mod 256) * 2 ^ 16 + (n div 2 ^ 8 mod 256) * 2 ^ 8 + n mod 256 = (n::nat)"
proof -
  define d1 where "d1 = n div 256"
  define d2 where "d2 = d1 div 256"
  define d3 where "d3 = d2 div 256"
  have e1: "n div 2 ^ 8 = d1" by (simp add: d1_def)
  have e2: "n div 2 ^ 16 = d2" by (simp add: d2_def d1_def div_mult2_eq)
  have e3: "n div 2 ^ 24 = d3" by (simp add: d3_def d2_def d1_def div_mult2_eq)
  have s1: "n = d1 * 256 + n mod 256" by (simp add: d1_def)
  have s2: "d1 = d2 * 256 + d1 mod 256" by (simp add: d2_def)
  have s3: "d2 = d3 * 256 + d2 mod 256" by (simp add: d3_def)
  have "d3 < 256" using assms unfolding e3[symmetric] by (simp add: less_mult_imp_div_less)
  then have s4: "d3 mod 256 = d3" by simp
  have "d3 * 2 ^ 24 + (d2 mod 256) * 2 ^ 16 + (d1 mod 256) * 2 ^ 8 + n mod 256 = n"
    using s1 s2 s3 by simp
  then show ?thesis unfolding e1 e2 e3 s4 .
qed

lemma length_u32be [simp]: "length (u32be n) = 4"
  by (simp add: u32be_def)

lemma readUInt32BE_u32be:
  assumes "n < 2 ^ 32"
  shows "readUInt32BE (pre @ u32be n @ rest) (length pre) = Inr n"
proof -
  have "readUInt32BE (pre @ u32be n @ rest) (length pre) =
     Inr ((n div 2 ^ 24 mod 256) * 2 ^ 24 + (n div 2 ^ 16 mod 256) * 2 ^ 16 + (n div 2 ^ 8 mod 256) * 2 ^ 8 + n mod 256)"
    by (simp add: readUInt32BE_def u32be_def nth_append)
  then show ?thesis unfolding u32_split[OF assms] .
qed



text \<open>\<open>serializeRecord\<close> writes the record of the format, or raises RangeError.\<close>

lemma alloc_split: "alloc (1 + 4 + 4 + m) = replicate 9 (char_of (0::nat)) @ replicate m (char_of (0::nat))"
  by (simp add: alloc_def replicate_add[symmetric])

lemma replicate9: "replicate 9 z = [z, z, z, z, z, z, z, z, z]"
  by (simp add: numeral_eq_Suc)

lemma copy_into:
  "length pre = start \<Longrightarrow> length src \<le> length rest \<Longrightarrow>
   copy src (pre @ rest) start = pre @ src @ drop (length src) rest"
  by (simp add: copy_def)

lemma update4:
  "length pre = off \<Longrightarrow>
   (pre @ b0 # b1 # b2 # b3 # rest)[off := x0, off + 1 := x1, off + 2 := x2, off + 3 := x3]
     = pre @ x0 # x1 # x2 # x3 # rest"
  by (simp add: list_update_append numeral_eq_Suc)

lemma writeUInt32BE_ok:
  assumes "length pre = off" and "n < 2 ^ 32"
  shows "writeUInt32BE n off (pre @ b0 # b1 # b2 # b3 # rest) = Inr (pre @ u32be n @ rest)"
proof -
  have g: "\<not> (2 ^ 32 \<le> n \<or> length (pre @ b0 # b1 # b2 # b3 # rest) < off + 4)"
    using assms by simp
  show ?thesis
    unfolding writeUInt32BE_def if_not_P[OF g] update4[OF assms(1)] by (simp add: u32be_def)
qed

lemma writeUInt32BE_big: "2 ^ 32 \<le> n \<Longrightarrow> writeUInt32BE n off buf = Inl RangeError"
  by (simp add: writeUInt32BE_def)

lemma writeUInt8_ok: "v \<le> 255 \<Longrightarrow> writeUInt8 v 0 (b # rest) = Inr (char_of v # rest)"
  by (simp add: writeUInt8_def)

lemma serializeRecord_bytes:
  "serializeRecord P op key v =
     (if length key < 2 ^ 32 \<and> length (serializedValue P v) < 2 ^ 32
      then Inr (wal_record op key (serializedValue P v)) else Inl RangeError)"
proof -
  define vb where "vb = serializedValue P v"
  define z where "z = char_of (0::nat)"
  define ob where "ob = char_of (case op of Put \<Rightarrow> 1 | Del \<Rightarrow> (2::nat))"
  define tail where "tail = replicate (length key + length vb) z"
  have a: "alloc (1 + 4 + 4 + length key + length vb) = z # [z, z, z, z] @ [z, z, z, z] @ tail"
    using alloc_split[of "length key + length vb"] by (simp add: replicate9 z_def tail_def add.assoc)
  have w1: "writeUInt8 (if op = Put then 1 else 2) 0 (z # [z, z, z, z] @ [z, z, z, z] @ tail)
      = Inr ([ob] @ z # z # z # z # ([z, z, z, z] @ tail))"
    by (cases op) (simp_all add: writeUInt8_ok ob_def)
  show ?thesis
  proof (cases "length key < 2 ^ 32")
    case k: True
    have w2: "writeUInt32BE (length key) 1 ([ob] @ z # z # z # z # ([z, z, z, z] @ tail))
       = Inr ([ob] @ u32be (length key) @ ([z, z, z, z] @ tail))"
      by (rule writeUInt32BE_ok) (use k in simp_all)
    have w2': "[ob] @ u32be (length key) @ ([z, z, z, z] @ tail) = (ob # u32be (length key)) @ z # z # z # z # tail"
      by simp
    show ?thesis
    proof (cases "length vb < 2 ^ 32")
      case v: True
      have w3: "writeUInt32BE (length vb) 5 ((ob # u32be (length key)) @ z # z # z # z # tail)
         = Inr ((ob # u32be (length key)) @ u32be (length vb) @ tail)"
        by (rule writeUInt32BE_ok) (use v in simp_all)
      have c1: "copy key (((ob # u32be (length key)) @ u32be (length vb)) @ tail) 9
           = ((ob # u32be (length key)) @ u32be (length vb)) @ key @ drop (length key) tail"
        by (rule copy_into) (simp_all add: tail_def)
      have c2: "copy vb ((((ob # u32be (length key)) @ u32be (length vb)) @ key) @ replicate (length vb) z) (9 + length key)
           = (((ob # u32be (length key)) @ u32be (length vb)) @ key) @ vb @ drop (length vb) (replicate (length vb) z)"
        by (rule copy_into) simp_all
      have "serializeRecord P op key v = Inr (ob # u32be (length key) @ u32be (length vb) @ key @ vb)"
        using w2 w3 c1 c2 unfolding serializeRecord_def Let_def vb_def[symmetric] a w1
        by (simp add: tail_def)
      then show ?thesis using k v by (simp add: wal_record_def ob_def vb_def)
    next
      case v: False
      then have "writeUInt32BE (length vb) 5 ((ob # u32be (length key)) @ z # z # z # z # tail) = Inl RangeError"
        by (simp add: writeUInt32BE_big)
      then have "serializeRecord P op key v = Inl RangeError"
        using w2 unfolding serializeRecord_def Let_def vb_def[symmetric] a w1
        by simp
      then show ?thesis using v by (simp add: vb_def)
    qed
  next
    case k: False
    then have "writeUInt32BE (length key) 1 ([ob] @ z # z # z # z # ([z, z, z, z] @ tail)) = Inl RangeError"
      by (simp add: writeUInt32BE_big)
    then have "serializeRecord P op key v = Inl RangeError"
      unfolding serializeRecord_def Let_def vb_def[symmetric] a w1 by simp
    then show ?thesis using k by simp
  qed
qed


text \<open>One iteration of the loop of \<open>recover\<close> on a well-formed record.\<close>

lemma length_wal_record [simp]: "length (wal_record op key vb) = 9 + length key + length vb"
  by (simp add: wal_record_def)

lemma op_byte: "of_char (char_of (case op of Put \<Rightarrow> 1 | Del \<Rightarrow> (2::nat))) = (1::nat) \<longleftrightarrow> op = Put"
  by (cases op) simp_all

lemma slice_mid: "length a = s \<Longrightarrow> t = s + length b \<Longrightarrow> slice (a @ b @ c) s t = b"
  by (simp add: slice_def)

lemma recover_loop_record:
  assumes k: "length key < 2 ^ 32" and v: "length vb < 2 ^ 32"
  shows "recover_loop P clk (pre @ wal_record op key vb @ rest) (length pre) i T =
         recover_loop P clk (pre @ wal_record op key vb @ rest) (length pre + length (wal_record op key vb)) (Suc i)
           (applyRecord (clk i) op key (reparse P vb) T)"
proof -
  define ob where "ob = char_of (case op of Put \<Rightarrow> 1 | Del \<Rightarrow> (2::nat))"
  define w where "w = pre @ wal_record op key vb @ rest"
  have w1: "w = (pre @ [ob]) @ u32be (length key) @ (u32be (length vb) @ key @ vb @ rest)"
    and w2: "w = (pre @ ob # u32be (length key)) @ u32be (length vb) @ (key @ vb @ rest)"
    and w3: "w = pre @ ob # (u32be (length key) @ u32be (length vb) @ key @ vb @ rest)"
    and w4: "w = (pre @ ob # u32be (length key) @ u32be (length vb)) @ key @ (vb @ rest)"
    and w5: "w = (pre @ ob # u32be (length key) @ u32be (length vb) @ key) @ vb @ rest"
    by (simp_all add: w_def wal_record_def ob_def)
  have lt: "length pre < length w" by (simp add: w_def)
  have r0: "readUInt8 w (length pre) = Inr (of_char ob)"
    unfolding w3 by (simp add: readUInt8_def)
  have r1: "readUInt32BE w (length pre + 1) = Inr (length key)"
    using readUInt32BE_u32be[OF k, of "pre @ [ob]"] unfolding w1 by simp
  have r2: "readUInt32BE w (length pre + 5) = Inr (length vb)"
    using readUInt32BE_u32be[OF v, of "pre @ ob # u32be (length key)"] unfolding w2 by simp
  have s1: "slice w (length pre + 9) (length pre + 9 + length key) = key"
    unfolding w4 by (rule slice_mid) simp_all
  have s2: "slice w (length pre + 9 + length key) (length pre + 9 + length key + length vb) = vb"
    unfolding w5 by (rule slice_mid) simp_all
  have oc: "(if of_char ob = (1::nat) then Put else Del) = op"
    by (cases op) (simp_all add: ob_def)
  have "recover_loop P clk w (length pre) i T =
        recover_loop P clk w (length pre + 9 + length key + length vb) (Suc i)
           (applyRecord (clk i) op key (reparse P vb) T)"
    by (subst recover_loop.simps[of P clk w "length pre" i T])
       (simp only: lt if_True r0 r1 r2 sum.case s1 s2 oc)
  then show ?thesis by (simp add: w_def add.assoc)
qed

lemma record_of_eq:
  "record_of P m = (case m of PutOp now k v \<Rightarrow> wal_record Put k (serializedValue P v) | DelOp k \<Rightarrow> wal_record Del k [])"
  by (cases m) simp_all


lemma put_Inr:
  "put P now k v e = Inr e' \<longleftrightarrow>
     \<not> closed e \<and> fits P (PutOp now k v) \<and>
     e' = e\<lparr>walQueue := walQueue e @ [record_of P (PutOp now k v)],
            memTable := apply_mutation (PutOp now k v) (memTable e)\<rparr>"
  by (auto simp: put_def serializeRecord_bytes)

lemma del_Inr:
  "del P k e = Inr e' \<longleftrightarrow>
     \<not> closed e \<and> fits P (DelOp k) \<and>
     e' = e\<lparr>walQueue := walQueue e @ [record_of P (DelOp k)],
            memTable := apply_mutation (DelOp k) (memTable e)\<rparr>"
  by (auto simp: del_def serializeRecord_bytes serializedValue_def)

lemma run1_Inr:
  "run P [m] e = Inr e' \<longleftrightarrow>
     \<not> closed e \<and> fits P m \<and>
     e' = e\<lparr>walQueue := walQueue e @ [record_of P m], memTable := apply_mutation m (memTable e)\<rparr>"
proof (cases m)
  case (PutOp now k v)
  then show ?thesis using put_Inr[of P now k v e] by (auto split: sum.splits)
next
  case (DelOp k)
  then show ?thesis using del_Inr[of P k e] by (auto split: sum.splits)
qed


lemma run_Inr:
  "run P ms e = Inr e' \<Longrightarrow>
     walQueue e' = walQueue e @ map (record_of P) ms \<and>
     memTable e' = fold apply_mutation ms (memTable e) \<and>
     walFile e' = walFile e \<and> snapshotFile e' = snapshotFile e \<and> closed e' = closed e \<and>
     (\<forall>m\<in>set ms. fits P m) \<and> (ms \<noteq> [] \<longrightarrow> \<not> closed e)"
proof (induction ms arbitrary: e)
  case Nil
  then show ?case by simp
next
  case (Cons m ms)
  from Cons.prems obtain e1 where e1: "run P [m] e = Inr e1" and rest: "run P ms e1 = Inr e'"
    by (cases m) (auto split: sum.splits)
  from e1 have m: "\<not> closed e" "fits P m"
    "e1 = e\<lparr>walQueue := walQueue e @ [record_of P m], memTable := apply_mutation m (memTable e)\<rparr>"
    by (simp_all add: run1_Inr)
  from Cons.IH[OF rest] show ?case using m by simp
qed

lemma run_total:
  "\<not> closed e \<Longrightarrow> \<forall>m\<in>set ms. fits P m \<Longrightarrow> \<exists>e'. run P ms e = Inr e'"
proof (induction ms arbitrary: e)
  case Nil
  then show ?case by simp
next
  case (Cons m ms)
  define e1 where "e1 = e\<lparr>walQueue := walQueue e @ [record_of P m], memTable := apply_mutation m (memTable e)\<rparr>"
  have s: "run P [m] e = Inr e1" using Cons.prems by (simp add: run1_Inr e1_def)
  have "\<not> closed e1" using Cons.prems by (simp add: e1_def)
  then obtain e' where "run P ms e1 = Inr e'" using Cons.IH Cons.prems by auto
  then show ?case using s by (cases m) (auto split: sum.splits)
qed

lemma map_of_apply_mutation:
  "map_of (apply_mutation m T) k = (if k = mutation_key m then outcome m else map_of T k)"
  by (cases m) (simp_all add: applyRecord_def update_conv' delete_conv')








lemma map_of_fold_last:
  "ms \<noteq> [] \<Longrightarrow> \<forall>m\<in>set ms. mutation_key m = k \<Longrightarrow>
   map_of (fold apply_mutation ms T) k = outcome (last ms)"
proof (induction ms arbitrary: T)
  case Nil
  then show ?case by simp
next
  case (Cons m ms)
  show ?case
  proof (cases "ms = []")
    case True
    then show ?thesis using Cons.prems by (simp add: map_of_apply_mutation)
  next
    case False
    then show ?thesis using Cons.IH[OF False, of "apply_mutation m T"] Cons.prems by simp
  qed
qed



lemma keys_snapshot_table:
  "fst ` set (fold (\<lambda>(k, v). AList.update k v) es T) = fst ` set es \<union> fst ` set T"
proof (induction es arbitrary: T)
  case Nil
  show ?case by simp
next
  case (Cons p es)
  obtain a b where p: "p = (a, b)" by (cases p)
  have "fst ` set (fold (\<lambda>(k, v). AList.update k v) (p # es) T)
          = fst ` set es \<union> fst ` set (AList.update a b T)"
    using Cons.IH[of "AList.update a b T"] by (simp add: p)
  also have "\<dots> = fst ` set es \<union> ({a} \<union> fst ` set T)" by (simp only: dom_update)
  finally show ?case by (auto simp: p)
qed

















lemma makeFastDB_empty_directory: "makeFastDB P clk None [] = Inr fresh"
  by (simp add: makeFastDB_def recover_def fresh_def)

section \<open>The engine: recovery, reads and the record format\<close>

text \<open>
  Two malformed tails after the well-formed record of \<open>put('a', 'b')\<close>: three bytes,
  too few for a header; and a header that announces a key and a value of five bytes
  each, followed by two bytes only.
\<close>

lemma recover_truncated_header:
  "makeFastDB P clk None (wal_record Put ''a'' ''b'' @ ''xyz'') = Inl RangeError"
proof -
  define w where "w = wal_record Put ''a'' ''b'' @ ''xyz''"
  have lw: "length w = 14" by (simp add: w_def)
  have "recover_loop P clk w 0 0 [] = recover_loop P clk w 11 1 (applyRecord (clk 0) Put ''a'' (reparse P ''b'') [])"
    using recover_loop_record[of "''a''" "''b''" P clk "[]" Put "''xyz''" 0 "[]"] by (simp add: w_def)
  also have "\<dots> = Inl RangeError"
    by (subst recover_loop.simps) (simp add: lw readUInt8_def readUInt32BE_def)
  finally show ?thesis by (simp add: makeFastDB_def recover_def w_def)
qed

lemma recover_truncated_body:
  "makeFastDB P clk None (wal_record Put ''a'' ''b'' @ char_of (1::nat) # u32be 5 @ u32be 5 @ ''zz'')
     = Inr \<lparr>memTable = [(''a'', \<lparr>val = reparse P ''b'', ts = clk 0\<rparr>),
                        (''zz'', \<lparr>val = reparse P [], ts = clk 1\<rparr>)],
            walQueue = [], closed = False,
            walFile = wal_record Put ''a'' ''b'' @ char_of (1::nat) # u32be 5 @ u32be 5 @ ''zz'',
            snapshotFile = None\<rparr>"
proof -
  define w where "w = wal_record Put ''a'' ''b'' @ char_of (1::nat) # u32be 5 @ u32be 5 @ ''zz''"
  define T1 where "T1 = applyRecord (clk 0) Put ''a'' (reparse P ''b'') []"
  have lw: "length w = 22" by (simp add: w_def)
  have s1: "recover_loop P clk w 0 0 [] = recover_loop P clk w 11 1 T1"
    using recover_loop_record[of "''a''" "''b''" P clk "[]" Put "char_of (1::nat) # u32be 5 @ u32be 5 @ ''zz''" 0 "[]"]
    by (simp add: w_def T1_def)
  have w1: "w = (wal_record Put ''a'' ''b'' @ [char_of (1::nat)]) @ u32be 5 @ (u32be 5 @ ''zz'')"
    and w2: "w = (wal_record Put ''a'' ''b'' @ char_of (1::nat) # u32be 5) @ u32be 5 @ ''zz''"
    and w3: "w = wal_record Put ''a'' ''b'' @ char_of (1::nat) # (u32be 5 @ u32be 5 @ ''zz'')"
    and w4: "w = (wal_record Put ''a'' ''b'' @ char_of (1::nat) # u32be 5 @ u32be 5) @ ''zz'' @ []"
    by (simp_all add: w_def)
  have r0: "readUInt8 w 11 = Inr 1"
    unfolding w3 by (simp add: readUInt8_def nth_append)
  have r1: "readUInt32BE w (11 + 1) = Inr 5"
    using readUInt32BE_u32be[of 5 "wal_record Put ''a'' ''b'' @ [char_of (1::nat)]" "u32be 5 @ ''zz''"]
    unfolding w1 by simp
  have r2: "readUInt32BE w (11 + 5) = Inr 5"
    using readUInt32BE_u32be[of 5 "wal_record Put ''a'' ''b'' @ char_of (1::nat) # u32be 5" "''zz''"]
    unfolding w2 by simp
  have k: "slice w (11 + 9) (11 + 9 + 5) = ''zz''"
    unfolding w4 by (simp add: slice_def)
  have v: "slice w (11 + 9 + 5) (11 + 9 + 5 + 5) = []"
    by (simp add: slice_def lw)
  have lt: "11 < length w" by (simp add: lw)
  have s2: "recover_loop P clk w 11 1 T1
          = recover_loop P clk w (11 + 9 + 5 + 5) (Suc 1) (applyRecord (clk 1) Put ''zz'' (reparse P []) T1)"
    by (subst recover_loop.simps[of P clk w 11 1 T1])
       (simp only: lt if_True r0 r1 r2 sum.case k v refl)
  have s3: "recover_loop P clk w (11 + 9 + 5 + 5) (Suc 1) T2 = Inr T2" for T2
    by (subst recover_loop.simps) (simp add: lw)
  have "recover P clk None w = Inr (applyRecord (clk 1) Put ''zz'' (reparse P []) T1)"
    using s1 s2 s3 by (simp add: recover_def)
  then show ?thesis unfolding w_def[symmetric] by (simp add: makeFastDB_def T1_def applyRecord_def)
qed

text \<open>
  Claim C1 says that recovery applies the well-formed records before a malformed tail,
  stops there and raises nothing, so that the table holds the cleanly recovered prefix.
  The loop of \<open>recover\<close> does neither. On the truncated header \<open>readUInt32BE\<close> reads
  beyond the buffer and raises RangeError, nothing catches it, and \<open>makeFastDB\<close>
  fails. On the truncated record the clamped slices are applied as one more \<open>put\<close>,
  of the key \<open>zz\<close>, which no well-formed record holds.
\<close>

theorem recover_malformed_tail:
  "makeFastDB P clk None (wal_record Put ''a'' ''b'' @ ''xyz'') = Inl RangeError \<and>
   makeFastDB P clk None (wal_record Put ''a'' ''b'' @ char_of (1::nat) # u32be 5 @ u32be 5 @ ''zz'')
     = Inr \<lparr>memTable = [(''a'', \<lparr>val = reparse P ''b'', ts = clk 0\<rparr>),
                        (''zz'', \<lparr>val = reparse P [], ts = clk 1\<rparr>)],
            walQueue = [], closed = False,
            walFile = wal_record Put ''a'' ''b'' @ char_of (1::nat) # u32be 5 @ u32be 5 @ ''zz'',
            snapshotFile = None\<rparr>"
  using recover_truncated_header[of P clk] recover_truncated_body[of P clk] by (rule conjI)






text \<open>
  Claim C8. On an open engine, every finite sequence of calls of \<open>put\<close> and \<open>del\<close> on
  one key (with records that fit the format) returns, and \<open>get\<close> of the key then
  returns the record of the last \<open>put\<close>, or null when the last call was a \<open>del\<close>;
  after no call at all it returns what the engine held, which is null on an engine
  that holds no record for the key. The shard answers a GET of the key with 404 when
  \<open>get\<close> returns null, and with the value otherwise.
\<close>

theorem get_after_mutations:
  assumes "\<not> closed e" and "\<forall>m\<in>set ms. mutation_key m = k \<and> fits P m"
  shows "\<exists>e'. run P ms e = Inr e' \<and>
           get k e' = (if ms = [] then get k e else outcome (last ms)) \<and>
           (k \<noteq> [] \<longrightarrow>
              shard_server P c net now
                \<lparr>req_method = ''GET'', pathname = ''/kv'', query_key = Some k,
                 content_type = None, x_forwarded_by = None, body = []\<rparr> e'
              = Inr (Some (case get k e' of
                             None \<Rightarrow> json 404 (JObject [(''found'', JBool False)])
                           | Some r \<Rightarrow> json 200 (JObject [(''found'', JBool True), (''value'', val r),
                                                          (''ts'', JNumber (ts r))])), e'))"
proof -
  obtain e' where e': "run P ms e = Inr e'" using run_total[OF assms(1), of ms P] assms(2) by auto
  have t: "memTable e' = fold apply_mutation ms (memTable e)" using run_Inr[OF e'] by simp
  have g: "get k e' = (if ms = [] then get k e else outcome (last ms))"
  proof (cases "ms = []")
    case True
    then show ?thesis using t by (simp add: get_def)
  next
    case False
    then show ?thesis using t map_of_fold_last[OF False, of k "memTable e"] assms(2) by (simp add: get_def)
  qed
  have s: "k \<noteq> [] \<longrightarrow>
              shard_server P c net now
                \<lparr>req_method = ''GET'', pathname = ''/kv'', query_key = Some k,
                 content_type = None, x_forwarded_by = None, body = []\<rparr> e'
              = Inr (Some (case get k e' of
                             None \<Rightarrow> json 404 (JObject [(''found'', JBool False)])
                           | Some r \<Rightarrow> json 200 (JObject [(''found'', JBool True), (''value'', val r),
                                                          (''ts'', JNumber (ts r))])), e')"
    by (simp add: shard_server_def truthy_def split: option.splits)
  show ?thesis using e' g s by blast
qed

theorem get_after_mutations_witness:
  "\<exists>e'. run sample [PutOp 1 ''k'' (JString ''x''), DelOp ''k'', PutOp 3 ''k'' (JString ''Bob'')] fresh = Inr e' \<and>
        get ''k'' e' = Some \<lparr>val = JString ''Bob'', ts = 3\<rparr>"
  using get_after_mutations[of fresh "[PutOp 1 ''k'' (JString ''x''), DelOp ''k'', PutOp 3 ''k'' (JString ''Bob'')]"
          "''k''" sample alone replicas_down 4]
  by (auto simp: fresh_def serializedValue_def)

text \<open>
  Claim C9. The record that \<open>put\<close> appends to the WAL queue is the op byte 1, the
  length of the key and the length of the value bytes as big-endian unsigned 32-bit
  integers, the bytes of the key, and the value bytes: the string itself for a string,
  its \<open>JSON.stringify\<close> for an object or an array. The record that \<open>del\<close> appends is
  the op byte 2, the length of the key, the length 0, and the bytes of the key.
\<close>

theorem wal_record_format:
  assumes "\<not> closed e" and "length key < 2 ^ 32" and "length (serializedValue P v) < 2 ^ 32"
  shows "(\<exists>e'. put P now key v e = Inr e' \<and>
            walQueue e' = walQueue e @ [char_of (1::nat) # u32be (length key)
                                          @ u32be (length (serializedValue P v)) @ key @ serializedValue P v]) \<and>
         (\<exists>e'. del P key e = Inr e' \<and>
            walQueue e' = walQueue e @ [char_of (2::nat) # u32be (length key) @ u32be 0 @ key]) \<and>
         (\<forall>s. v = JString s \<longrightarrow> serializedValue P v = s) \<and>
         (typeof_object v \<longrightarrow> serializedValue P v = JSON_stringify P v)"
proof -
  have p: "\<exists>e'. put P now key v e = Inr e' \<and>
            walQueue e' = walQueue e @ [char_of (1::nat) # u32be (length key)
                                          @ u32be (length (serializedValue P v)) @ key @ serializedValue P v]"
    using assms by (simp add: put_def serializeRecord_bytes wal_record_def)
  have d: "\<exists>e'. del P key e = Inr e' \<and>
            walQueue e' = walQueue e @ [char_of (2::nat) # u32be (length key) @ u32be 0 @ key]"
    using assms by (simp add: del_def serializeRecord_bytes wal_record_def serializedValue_def)
  have t: "typeof_object v \<longrightarrow> serializedValue P v = JSON_stringify P v"
    by (cases v) (simp_all add: typeof_object_def serializedValue_def)
  show ?thesis using p d t by (simp add: serializedValue_def)
qed

theorem wal_record_format_witness:
  "(\<exists>e'. put sample 1000 ''ab'' (JString ''xyz'') fresh = Inr e' \<and>
          walQueue e' = [char_of (1::nat) # u32be 2 @ u32be 3 @ ''ab'' @ ''xyz'']) \<and>
   (\<exists>e'. del sample ''ab'' fresh = Inr e' \<and>
          walQueue e' = [char_of (2::nat) # u32be 2 @ u32be 0 @ ''ab''])"
proof -
  have h: "\<not> closed fresh" "length ''ab'' < 2 ^ 32" "length (serializedValue sample (JString ''xyz'')) < 2 ^ 32"
    by (simp_all add: fresh_def serializedValue_def)
  have l: "length ''ab'' = 2" "serializedValue sample (JString ''xyz'') = ''xyz''" "length ''xyz'' = 3"
    by (simp_all add: serializedValue_def)
  show ?thesis using wal_record_format[OF h, of 1000] unfolding l by (simp add: fresh_def)
qed

section \<open>The replicator and the shard's handler\<close>

lemma not_settled_check:
  "ps \<noteq> [] \<Longrightarrow> \<not> list_all (\<lambda>p. status_property p = Some ''fulfilled'' \<or> status_property p = Some ''rejected'') ps"
  by (cases ps) (simp_all add: status_property_def)

lemma wait_loop_Some:
  assumes "wait_loop c ps k = Some y"
  shows "ps \<noteq> [] \<longrightarrow> k \<le> y \<and> min (quorumSize c) (length (REPLICAS c) + 1) \<le> acks_at ps y"
proof (rule wait_loop.raw_induct[where P = "\<lambda>c ps k y. ps \<noteq> [] \<longrightarrow> k \<le> y \<and> min (quorumSize c) (length (REPLICAS c) + 1) \<le> acks_at ps y", OF _ assms])
  fix wl :: "config \<Rightarrow> promise list \<Rightarrow> nat \<Rightarrow> nat option" and c ps k y
  assume ih: "\<And>c ps k y. wl c ps k = Some y \<Longrightarrow>
                ps \<noteq> [] \<longrightarrow> k \<le> y \<and> min (quorumSize c) (length (REPLICAS c) + 1) \<le> acks_at ps y"
    and body: "(if acks_at ps k < min (quorumSize c) (length (REPLICAS c) + 1)
      then if list_all (\<lambda>p. status_property p = Some ''fulfilled'' \<or> status_property p = Some ''rejected'') ps
           then Some (Suc k) else wl c ps (Suc k)
      else Some k) = Some y"
  show "ps \<noteq> [] \<longrightarrow> k \<le> y \<and> min (quorumSize c) (length (REPLICAS c) + 1) \<le> acks_at ps y"
  proof
    assume ne: "ps \<noteq> []"
    show "k \<le> y \<and> min (quorumSize c) (length (REPLICAS c) + 1) \<le> acks_at ps y"
    proof (cases "acks_at ps k < min (quorumSize c) (length (REPLICAS c) + 1)")
      case True
      then have "wl c ps (Suc k) = Some y"
        using body not_settled_check[OF ne] unfolding if_P[OF True] by simp
      then show ?thesis using ih ne by fastforce
    next
      case False
      have "y = k" using body unfolding if_not_P[OF False] by simp
      moreover have "min (quorumSize c) (length (REPLICAS c) + 1) \<le> acks_at ps k"
        using False by (simp only: not_less)
      ultimately show ?thesis by blast
    qed
  qed
qed


lemma acks_at_le: "acks_at ps k \<le> 1 + length (filter (\<lambda>p. case p of Fulfilled d \<Rightarrow> True | _ \<Rightarrow> False) ps)"
proof -
  have "length (filter (\<lambda>p. case p of Fulfilled d \<Rightarrow> d < k | _ \<Rightarrow> False) ps)
       \<le> length (filter (\<lambda>p. case p of Fulfilled d \<Rightarrow> True | _ \<Rightarrow> False) ps)"
    by (induction ps) (auto split: promise.splits)
  then show ?thesis by (simp add: acks_at_def)
qed





lemma replicate_hangs:
  assumes ne: "REPLICAS c \<noteq> []"
    and few: "1 + length (filter (\<lambda>p. case p of Fulfilled d \<Rightarrow> True | _ \<Rightarrow> False)
                 (map (\<lambda>base. forwardWrite P c net m base key v) (REPLICAS c)))
              < min (quorumSize c) (length (REPLICAS c) + 1)"
  shows "replicate_shard P c net m key v = None"
proof -
  define ps where "ps = map (\<lambda>base. forwardWrite P c net m base key v) (REPLICAS c)"
  have pne: "ps \<noteq> []" using ne by (simp add: ps_def)
  have "wait_loop c ps 0 = None"
  proof (cases "wait_loop c ps 0")
    case None
    then show ?thesis .
  next
    case (Some y)
    then have "min (quorumSize c) (length (REPLICAS c) + 1) \<le> acks_at ps y"
      using wait_loop_Some[OF Some] pne by simp
    moreover have "acks_at ps y \<le> 1 + length (filter (\<lambda>p. case p of Fulfilled d \<Rightarrow> True | _ \<Rightarrow> False) ps)"
      by (rule acks_at_le)
    ultimately show ?thesis using few unfolding ps_def[symmetric] by linarith
  qed
  then show ?thesis using ne by (simp add: replicate_shard_def Let_def ps_def[symmetric])
qed


lemma includes_nonempty: "includes_str ct ''application/json'' \<Longrightarrow> ct \<noteq> []"
  by (cases ct) simp_all

text \<open>
  Claim C10. A PUT on \<open>/kv\<close> whose content-type includes \<open>application/json\<close> and whose
  body \<open>JSON.parse\<close> rejects is answered with status 400, and the engine is as before:
  no record in the table, none in the WAL queue.
\<close>

theorem invalid_json_put_rejected:
  assumes "req_method req = ''PUT''" and "pathname req = ''/kv''"
    and "content_type req = Some ct" and "includes_str ct ''application/json''"
    and "JSON_parse P (body req) = None"
  shows "\<exists>r. shard_server P c net now req e = Inr (Some r, e) \<and> status r = 400"
proof (cases "truthy (query_key req)")
  case False
  then show ?thesis using assms(1,2) by (simp add: shard_server_def json_def)
next
  case True
  have ct: "truthy (content_type req)" using assms(3) includes_nonempty[OF assms(4)] by (simp add: truthy_def)
  show ?thesis using True ct assms by (simp add: shard_server_def json_def)
qed

theorem invalid_json_put_rejected_witness:
  "\<exists>r. shard_server sample alone replicas_down 1000
          \<lparr>req_method = ''PUT'', pathname = ''/kv'', query_key = Some ''invalid'',
           content_type = Some ''application/json'', x_forwarded_by = None,
           body = ''{invalid json}''\<rparr> fresh = Inr (Some r, fresh) \<and> status r = 400"
  using invalid_json_put_rejected[of
          "\<lparr>req_method = ''PUT'', pathname = ''/kv'', query_key = Some ''invalid'',
            content_type = Some ''application/json'', x_forwarded_by = None,
            body = ''{invalid json}''\<rparr>" "''application/json''" sample alone replicas_down 1000 fresh]
  by (simp add: sample_def sample_parse_def)

text \<open>
  Claim C3 says that \<open>replicate\<close> returns once the acknowledgements reach
  \<open>min(quorum, replicas.length + 1)\<close> or every forward has settled, also when forwards
  fail. With one replica, quorum 2 and a forward that fails, the loop never ends: the
  test for settled promises reads \<open>p.status\<close>, which no promise has, and \<open>acks\<close> stays
  at 1. The PUT is applied to the engine and never answered.
\<close>

theorem replicate_never_returns_on_failed_forward:
  "replicate_shard P with_replica replicas_down ''PUT'' ''k'' (JString ''v'') = None \<and>
   shard_server P with_replica replicas_down now
     \<lparr>req_method = ''PUT'', pathname = ''/kv'', query_key = Some ''k'',
      content_type = None, x_forwarded_by = None, body = ''v''\<rparr> fresh
   = Inr (None, fresh\<lparr>walQueue := [wal_record Put ''k'' ''v''],
                       memTable := [(''k'', \<lparr>val = JString ''v'', ts = now\<rparr>)]\<rparr>)"
proof -
  have r: "replicate_shard P with_replica replicas_down ''PUT'' ''k'' (JString ''v'') = None"
    by (rule replicate_hangs)
       (simp_all add: with_replica_def replicas_down_def forwardWrite_def quorumSize_def)
  have p: "put P now ''k'' (JString ''v'') fresh
           = Inr (fresh\<lparr>walQueue := [wal_record Put ''k'' ''v''],
                        memTable := [(''k'', \<lparr>val = JString ''v'', ts = now\<rparr>)]\<rparr>)"
    by (simp add: put_def fresh_def serializeRecord_bytes serializedValue_def applyRecord_def)
  show ?thesis using r p by (simp add: shard_server_def truthy_def)
qed






section \<open>The router\<close>

lemma pickNode_single:
  assumes "0 < V" and "V < 2 ^ 31"
  shows "pickNode P (buildRing P [s] V) k = Some (Inr s)"
proof -
  have ne: "buildRing P [s] V \<noteq> []" using assms(1) length_buildRing[of P "[s]" V] by auto
  have len: "length (buildRing P [s] V) < 2 ^ 31" using assms(2) by (simp add: length_buildRing)
  obtain i where i: "i < length (buildRing P [s] V)"
    "pickNode P (buildRing P [s] V) k = Some (Inr (node (buildRing P [s] V ! i)))"
    using pickNode_sorted[OF sorted_buildRing len ne, of P k] by blast
  have "buildRing P [s] V ! i \<in> set (emitted P [s] V)" using i(1) set_buildRing nth_mem by blast
  then have "node (buildRing P [s] V ! i) = s" using node_emitted by fastforce
  then show ?thesis using i(2) by simp
qed

text \<open>
  Claim C5 says that the shard receives the client's content-type from the router. The
  request that \<open>proxy\<close> sends has the content-type \<open>text/plain\<close> whatever the client
  sent: a JSON PUT through the router is stored as the string of its body, where the
  same PUT sent to the shard is stored as the parsed object.
\<close>

theorem proxy_discards_content_type:
  \<open>content_type (proxy_request m key b) = Some ''text/plain'' \<and>
   coordinator_server P [''http://127.0.0.1:4101''] 100 (shard_fetch P alone net now)
     \<lparr>req_method = ''PUT'', pathname = ''/kv'', query_key = Some ''u2'',
      content_type = Some ''application/json'', x_forwarded_by = None,
      body = ''{"name":"Bob"}''\<rparr> fresh
   = Inr (Some (json 200 (JObject [(''ok'', JBool True), (''acks'', JNumber 1), (''quorum'', JNumber 1)])),
          fresh\<lparr>walQueue := [wal_record Put ''u2'' ''{"name":"Bob"}''],
                memTable := [(''u2'', \<lparr>val = JString ''{"name":"Bob"}'', ts = now\<rparr>)]\<rparr>) \<and>
   shard_server sample alone net now
     \<lparr>req_method = ''PUT'', pathname = ''/kv'', query_key = Some ''u2'',
      content_type = Some ''application/json'', x_forwarded_by = None,
      body = ''{"name":"Bob"}''\<rparr> fresh
   = Inr (Some (json 200 (JObject [(''ok'', JBool True), (''acks'', JNumber 1), (''quorum'', JNumber 1)])),
          fresh\<lparr>walQueue := [wal_record Put ''u2'' ''{"name":"Bob"}''],
                memTable := [(''u2'', \<lparr>val = JObject [(''name'', JString ''Bob'')], ts = now\<rparr>)]\<rparr>)\<close>
proof -
  have pick: "pickNode P (buildRing P [''http://127.0.0.1:4101''] (vnodeCount 100)) ''u2''
                = Some (Inr ''http://127.0.0.1:4101'')"
    by (rule pickNode_single) (simp_all add: vnodeCount_def)
  have a: "content_type (proxy_request m key b) = Some ''text/plain''"
    by (simp add: proxy_request_def)
  have b: \<open>coordinator_server P [''http://127.0.0.1:4101''] 100 (shard_fetch P alone net now)
     \<lparr>req_method = ''PUT'', pathname = ''/kv'', query_key = Some ''u2'',
      content_type = Some ''application/json'', x_forwarded_by = None,
      body = ''{"name":"Bob"}''\<rparr> fresh
   = Inr (Some (json 200 (JObject [(''ok'', JBool True), (''acks'', JNumber 1), (''quorum'', JNumber 1)])),
          fresh\<lparr>walQueue := [wal_record Put ''u2'' ''{"name":"Bob"}''],
                memTable := [(''u2'', \<lparr>val = JString ''{"name":"Bob"}'', ts = now\<rparr>)]\<rparr>)\<close>
    by (simp add: coordinator_server_def truthy_def pick proxy_def proxy_request_def shard_fetch_def
          shard_server_def put_def fresh_def serializeRecord_bytes serializedValue_def applyRecord_def
          alone_def replicate_shard_def reply_of_def)
  have c: \<open>shard_server sample alone net now
     \<lparr>req_method = ''PUT'', pathname = ''/kv'', query_key = Some ''u2'',
      content_type = Some ''application/json'', x_forwarded_by = None,
      body = ''{"name":"Bob"}''\<rparr> fresh
   = Inr (Some (json 200 (JObject [(''ok'', JBool True), (''acks'', JNumber 1), (''quorum'', JNumber 1)])),
          fresh\<lparr>walQueue := [wal_record Put ''u2'' ''{"name":"Bob"}''],
                memTable := [(''u2'', \<lparr>val = JObject [(''name'', JString ''Bob'')], ts = now\<rparr>)]\<rparr>)\<close>
    by (simp add: truthy_def shard_server_def put_def fresh_def serializeRecord_bytes serializedValue_def
          applyRecord_def alone_def replicate_shard_def reply_of_def sample_def sample_parse_def
          sample_stringify_def)
  show ?thesis using a b c by blast
qed

end
